theory Spec2Isabelle
  imports Complex_Main
begin

section \<open>Closed-form evaluator of the Vasicek short-rate model\<close>

text \<open>
  The notebook \<^verbatim>\<open>Finance/Vasicek Analysis.ipynb\<close> defines two functions,
  \<^verbatim>\<open>vasicek_expectation\<close> and \<^verbatim>\<open>vasicek_variance\<close>, and evaluates one inline
  expression, \<^verbatim>\<open>norm.cdf(-r_t_expectation/r_t_variance ** 0.5)\<close>.  The spec calls them
  \<^verbatim>\<open>expected_rate\<close>, \<^verbatim>\<open>rate_variance\<close> and \<^verbatim>\<open>negative_rate_probability\<close>.

  Numbers are modelled as the reals the spec speaks of: every operator is the exact
  operation on \<^typ>\<open>real\<close>, and the rounding, overflow, infinities and NaN of IEEE
  doubles are outside the model.  Where an operation has no real result (Python raises,
  or numpy answers with an infinity or NaN), the model returns an error value.

  The theorems below are those whose statements do not turn on rounding.  The sign and
  the monotonicity of the variance and the position of the expected rate between
  \<^verbatim>\<open>r_0\<close> and \<^verbatim>\<open>r_bar\<close> hold of the formulas on the reals but not of the rounded
  computation, and are not stated here.
\<close>

subsection \<open>Python operators\<close>

datatype error = ZeroDivisionError | NotARealNumber

type_synonym 'a result = "error + 'a"

text \<open>
  \<^verbatim>\<open>a / b\<close> on Python numbers raises \<^verbatim>\<open>ZeroDivisionError\<close> when \<^verbatim>\<open>b\<close> is zero (numpy
  scalars answer with an infinity or NaN instead, which is no real number either).
\<close>

definition py_truediv :: "real \<Rightarrow> real \<Rightarrow> real result" where
  "py_truediv a b = (if b = 0 then Inl ZeroDivisionError else Inr (a / b))"

text \<open>
  \<^verbatim>\<open>x ** 0.5\<close>: the square root of a non-negative number; for a negative base Python
  answers with a complex number and numpy with NaN.
\<close>

definition py_pow_half :: "real \<Rightarrow> real result" where
  "py_pow_half x = (if x < 0 then Inl NotARealNumber else Inr (x powr (1 / 2)))"

text \<open>\<^verbatim>\<open>np.exp\<close> is the exponential function; on the reals it is total.\<close>

definition np_exp :: "real \<Rightarrow> real" where
  "np_exp x = exp x"

subsection \<open>The standard normal distribution\<close>

text \<open>
  \<^verbatim>\<open>scipy.stats.norm.cdf\<close> is the cumulative distribution function of the standard normal
  distribution.  It is built here from the power series
  \<open>x - x^3/3 + x^5/(2!*5) - x^7/(3!*7) + ...\<close> of the integral of \<open>exp(-u^2)\<close> from \<open>0\<close>
  to \<open>x\<close>.  That the function so defined has the standard normal density as its
  derivative and the limits \<open>0\<close> and \<open>1\<close> at the two infinities is proved below.
\<close>

definition gauss_coeff :: "nat \<Rightarrow> real" where
  "gauss_coeff n =
     (if even n then 0 else (- 1) ^ ((n - 1) div 2) / (fact ((n - 1) div 2) * real n))"

definition gauss_integral :: "real \<Rightarrow> real" where
  "gauss_integral x = (\<Sum>n. gauss_coeff n * x ^ n)"

definition std_normal_density :: "real \<Rightarrow> real" where
  "std_normal_density x = exp (- (x\<^sup>2 / 2)) / sqrt (2 * pi)"

definition std_normal_cdf :: "real \<Rightarrow> real" where
  "std_normal_cdf x = 1 / 2 + gauss_integral (x / sqrt 2) / sqrt pi"

definition norm_cdf :: "real \<Rightarrow> real" where
  "norm_cdf x = std_normal_cdf x"

subsection \<open>The functions of the notebook\<close>

text \<open>
  \<^verbatim>\<open>def vasicek_expectation(gamma, t, r_bar, r_0):\<close>
  \<^verbatim>\<open>    return r_0*np.exp(-gamma*t) + r_bar*(1 - np.exp(-gamma*t))\<close>

  Unary minus binds tighter than \<^verbatim>\<open>*\<close>, so the argument of \<^verbatim>\<open>np.exp\<close> is
  \<^verbatim>\<open>(-gamma)*t\<close>.  No operator of the body can raise.
\<close>

definition vasicek_expectation :: "real \<Rightarrow> real \<Rightarrow> real \<Rightarrow> real \<Rightarrow> real" where
  "vasicek_expectation gamma t r_bar r_0 =
     r_0 * np_exp ((- gamma) * t) + r_bar * (1 - np_exp ((- gamma) * t))"

text \<open>
  \<^verbatim>\<open>def vasicek_variance (sigma, gamma, t):\<close>
  \<^verbatim>\<open>    return sigma**2/(2*gamma)*(1-np.exp(-2*gamma*t))\<close>

  The body parses as \<^verbatim>\<open>((sigma**2)/(2*gamma)) * (1 - np.exp(((-2)*gamma)*t))\<close>; the
  quotient is evaluated first, so a zero divisor raises before anything else happens.
\<close>

definition vasicek_variance :: "real \<Rightarrow> real \<Rightarrow> real \<Rightarrow> real result" where
  "vasicek_variance sigma gamma t =
     (case py_truediv (sigma ^ 2) (2 * gamma) of
        Inl e \<Rightarrow> Inl e
      | Inr q \<Rightarrow> Inr (q * (1 - np_exp (((- 2) * gamma) * t))))"

text \<open>
  \<^verbatim>\<open>norm.cdf(-r_t_expectation/r_t_variance ** 0.5)\<close>

  The notebook evaluates this expression inline; the spec names it
  \<^verbatim>\<open>negative_rate_probability(mean, variance)\<close>.  It parses as
  \<^verbatim>\<open>norm.cdf((-r_t_expectation) / (r_t_variance ** 0.5))\<close>.
\<close>

definition negative_rate_probability :: "real \<Rightarrow> real \<Rightarrow> real result" where
  "negative_rate_probability r_t_expectation r_t_variance =
     (case py_pow_half r_t_variance of
        Inl e \<Rightarrow> Inl e
      | Inr s \<Rightarrow>
          (case py_truediv (- r_t_expectation) s of
             Inl e \<Rightarrow> Inl e
           | Inr z \<Rightarrow> Inr (norm_cdf z)))"

subsection \<open>The formulas of the spec\<close>

text \<open>The spec's formula for \<^verbatim>\<open>expected_rate\<close>, read as mathematics.\<close>

definition expected_rate_spec :: "real \<Rightarrow> real \<Rightarrow> real \<Rightarrow> real \<Rightarrow> real" where
  "expected_rate_spec gamma t r_bar r_0 =
     r_0 * exp (- (gamma * t)) + r_bar * (1 - exp (- (gamma * t)))"

text \<open>The spec's formula for \<^verbatim>\<open>rate_variance\<close>, read as mathematics.\<close>

definition rate_variance_spec :: "real \<Rightarrow> real \<Rightarrow> real \<Rightarrow> real" where
  "rate_variance_spec sigma gamma t =
     sigma\<^sup>2 / (2 * gamma) * (1 - exp (- (2 * gamma * t)))"

text \<open>The spec's formula for \<^verbatim>\<open>negative_rate_probability\<close>, read as mathematics.\<close>

definition negative_rate_probability_spec :: "real \<Rightarrow> real \<Rightarrow> real" where
  "negative_rate_probability_spec mean variance = std_normal_cdf (- mean / sqrt variance)"

subsection \<open>Integrals of the powers of the cosine\<close>

text \<open>
  The bound on the normal distribution function below compares the integral of
  \<open>exp(-u^2)\<close> with the integrals of \<open>cos^m\<close> from \<open>0\<close> to \<open>a\<close>, given here by their
  reduction formula, and with their values at \<open>pi/2\<close>, the Wallis integrals.
\<close>

fun cos_power_integral :: "nat \<Rightarrow> real \<Rightarrow> real" where
  "cos_power_integral 0 a = a"
| "cos_power_integral (Suc 0) a = sin a"
| "cos_power_integral (Suc (Suc m)) a =
     (cos a ^ Suc m * sin a + real (m + 1) * cos_power_integral m a) / real (m + 2)"

definition wallis :: "nat \<Rightarrow> real" where
  "wallis m = cos_power_integral m (pi / 2)"

section \<open>Properties\<close>

subsection \<open>Helper facts\<close>

lemma vasicek_variance_nonzero:
  "gamma \<noteq> 0 \<Longrightarrow>
     vasicek_variance sigma gamma t = Inr (sigma\<^sup>2 / (2 * gamma) * (1 - exp (- (2 * gamma * t))))"
  by (simp add: vasicek_variance_def py_truediv_def np_exp_def)

lemma vasicek_expectation_weight:
  "vasicek_expectation gamma t r_bar r_0 =
     r_bar + (r_0 - r_bar) * exp (- (gamma * t))"
  by (simp add: vasicek_expectation_def np_exp_def algebra_simps)

lemma exp_neg_tendsto_0:
  assumes "0 < (gamma::real)"
  shows "((\<lambda>t. exp (- (gamma * t))) \<longlongrightarrow> 0) at_top"
proof -
  have "filterlim (\<lambda>t. gamma * t) at_top at_top"
    using assms by (intro filterlim_tendsto_pos_mult_at_top [OF tendsto_const]) (auto simp: filterlim_ident)
  then have "filterlim (\<lambda>t. - (gamma * t)) at_bot at_top"
    by (simp add: filterlim_uminus_at_bot)
  then show ?thesis
    by (rule filterlim_compose [OF exp_at_bot])
qed

lemma exp_1_bounds: "1359 / 500 \<le> exp (1::real) \<and> exp (1::real) \<le> 68 / 25"
proof -
  obtain t :: real where t: "\<bar>t\<bar> \<le> \<bar>1\<bar>"
    and e: "exp (1::real) = (\<Sum>m<7. 1 ^ m / fact m) + exp t / fact 7 * 1 ^ 7"
    using Maclaurin_exp_le [of 1 7] by blast
  have s: "(\<Sum>m<7. (1::real) / fact m) = 1957 / 720"
    by (simp add: lessThan_nat_numeral lessThan_Suc fact_numeral)
  have "exp t \<le> exp 1" using t by simp
  then have u: "exp t \<le> 3" using exp_le by linarith
  have l: "0 \<le> exp t" by simp
  have f: "fact 7 = (5040::real)" by (simp add: fact_numeral)
  from e have "exp (1::real) = 1957 / 720 + exp t / 5040"
    by (simp add: s f)
  with u l show ?thesis by linarith
qed

lemma exp_5_bounds: "148 < exp (5::real) \<and> exp (5::real) < 149"
proof -
  have e: "exp (5::real) = exp 1 ^ 5"
    using exp_of_nat_mult [of 5 "1::real"] by simp
  have "(148::real) < (1359 / 500) ^ 5" by (simp add: power_divide)
  also have "\<dots> \<le> exp 1 ^ 5"
    by (rule power_mono) (use exp_1_bounds in simp_all)
  finally have l: "148 < exp (5::real)" by (simp only: e)
  have "exp (1::real) ^ 5 \<le> (68 / 25) ^ 5"
    by (rule power_mono) (use exp_1_bounds in simp_all)
  also have "\<dots> < (149::real)" by (simp add: power_divide)
  finally have "exp (5::real) < 149" by (simp only: e)
  with l show ?thesis by simp
qed

lemma exp_250_upper: "exp (250::real) \<le> 10 ^ 109"
proof -
  have "exp (250::real) = exp 5 ^ 50"
    using exp_of_nat_mult [of 50 "5::real"] by simp
  also have "\<dots> \<le> 149 ^ 50"
    by (rule power_mono) (use exp_5_bounds in simp_all)
  also have "\<dots> \<le> (10::real) ^ 109" by simp
  finally show ?thesis .
qed

lemma exp_250_lower: "(10::real) ^ 108 < exp 250"
proof -
  have "(10::real) ^ 108 < 148 ^ 50" by simp
  also have "\<dots> \<le> exp 5 ^ 50"
    by (rule power_mono) (use exp_5_bounds in simp_all)
  also have "\<dots> = exp (250::real)"
    using exp_of_nat_mult [of 50 "5::real"] by simp
  finally show ?thesis .
qed

lemma vasicek_expectation_error:
  "\<bar>vasicek_expectation gamma t r_bar r_0 - r_bar\<bar> = \<bar>r_0 - r_bar\<bar> * exp (- (gamma * t))"
  by (simp add: vasicek_expectation_weight abs_mult)

lemma vasicek_expectation_error_1000:
  "\<bar>vasicek_expectation (1 / 4) 1000 r_bar r_0 - r_bar\<bar> = \<bar>r_0 - r_bar\<bar> / exp 250"
proof -
  have "\<bar>vasicek_expectation (1 / 4) 1000 r_bar r_0 - r_bar\<bar> = \<bar>r_0 - r_bar\<bar> * exp (- 250)"
    by (simp add: vasicek_expectation_error)
  also have "\<dots> = \<bar>r_0 - r_bar\<bar> * inverse (exp 250)"
    by (simp only: exp_minus)
  finally show ?thesis
    by (simp only: divide_inverse)
qed

subsection \<open>The integral of \<open>exp(-u^2)\<close>\<close>

lemma gauss_term_odd:
  "gauss_coeff n * x ^ n =
     (if even n then 0
      else ((- 1) ^ ((n - 1) div 2) * x ^ (2 * ((n - 1) div 2) + 1)
              / (fact ((n - 1) div 2) * real (2 * ((n - 1) div 2) + 1))))"
proof (cases "even n")
  case True
  then show ?thesis by (simp add: gauss_coeff_def)
next
  case False
  then obtain k where "n = 2 * k + 1" by (rule oddE)
  then show ?thesis by (simp add: gauss_coeff_def)
qed

lemma summable_gauss_odd:
  "summable (\<lambda>k. (- 1) ^ k * x ^ (2 * k + 1) / (fact k * real (2 * k + 1)))"
proof (rule summable_comparison_test [OF _ summable_mult [OF summable_exp, of "\<bar>x\<bar>" "x\<^sup>2"]], intro exI allI impI)
  fix k :: nat
  have "norm ((- 1) ^ k * x ^ (2 * k + 1) / (fact k * real (2 * k + 1)))
          = \<bar>x\<bar> * (x\<^sup>2) ^ k / (fact k * real (2 * k + 1))"
    by (simp add: abs_mult power_abs power_mult power_even_abs)
  also have "\<dots> \<le> \<bar>x\<bar> * (x\<^sup>2) ^ k / (fact k * 1)"
    by (intro divide_left_mono mult_left_mono mult_nonneg_nonneg mult_pos_pos) simp_all
  also have "\<dots> = \<bar>x\<bar> * (inverse (fact k) * (x\<^sup>2) ^ k)"
    by (simp add: divide_inverse)
  finally show "norm ((- 1) ^ k * x ^ (2 * k + 1) / (fact k * real (2 * k + 1)))
                  \<le> \<bar>x\<bar> * (inverse (fact k) * (x\<^sup>2) ^ k)" .
qed

lemma summable_gauss: "summable (\<lambda>n. gauss_coeff n * x ^ n)"
proof -
  let ?g = "\<lambda>k. (- 1) ^ k * x ^ (2 * k + 1) / (fact k * real (2 * k + 1))"
  have "(\<lambda>n. if even n then 0 else ?g ((n - 1) div 2)) sums (suminf ?g)"
    by (rule sums_if' [OF summable_sums [OF summable_gauss_odd]])
  then have "summable (\<lambda>n. if even n then 0 else ?g ((n - 1) div 2))"
    by (rule sums_summable)
  then show ?thesis
    by (simp only: gauss_term_odd)
qed

lemma diffs_gauss_term:
  "diffs gauss_coeff n * x ^ n =
     (if even n then (- (x\<^sup>2)) ^ (n div 2) /\<^sub>R fact (n div 2) else 0)"
proof (cases "even n")
  case True
  then obtain k where n: "n = 2 * k" by (rule evenE)
  have "(- (x\<^sup>2)) ^ k = (- 1) ^ k * x ^ (2 * k)"
    by (simp add: power_minus [of "x\<^sup>2"] power_mult)
  then show ?thesis
    by (simp add: n diffs_def gauss_coeff_def divide_inverse)
next
  case False
  then show ?thesis by (simp add: diffs_def gauss_coeff_def)
qed

lemma diffs_gauss_sum: "(\<Sum>n. diffs gauss_coeff n * x ^ n) = exp (- (x\<^sup>2))"
proof -
  let ?f = "\<lambda>k. (- (x\<^sup>2)) ^ k /\<^sub>R fact k"
  have "?f sums exp (- (x\<^sup>2))"
    by (rule exp_converges)
  from sums_if [OF sums_zero this]
  have "(\<lambda>n. if even n then ?f (n div 2) else 0) sums exp (- (x\<^sup>2))"
    by simp
  then have "(\<lambda>n. diffs gauss_coeff n * x ^ n) sums exp (- (x\<^sup>2))"
    by (simp only: diffs_gauss_term)
  then show ?thesis
    by (rule sums_unique [symmetric])
qed

lemma DERIV_gauss_integral: "DERIV gauss_integral x :> exp (- (x\<^sup>2))"
proof -
  have "((\<lambda>x. \<Sum>n. gauss_coeff n * x ^ n) has_field_derivative (\<Sum>n. diffs gauss_coeff n * x ^ n)) (at x)"
    by (rule termdiffs_strong_converges_everywhere) (rule summable_gauss)
  then show ?thesis
    by (simp add: diffs_gauss_sum gauss_integral_def [abs_def])
qed

lemma gauss_integral_0: "gauss_integral 0 = 0"
  by (simp add: gauss_integral_def gauss_coeff_def)

lemma gauss_integral_minus: "gauss_integral (- x) = - gauss_integral x"
proof -
  have "gauss_coeff n * (- x) ^ n = - (gauss_coeff n * x ^ n)" for n
    by (cases "even n") (simp_all add: gauss_coeff_def)
  then have "gauss_integral (- x) = (\<Sum>n. - (gauss_coeff n * x ^ n))"
    by (simp add: gauss_integral_def)
  also have "\<dots> = - gauss_integral x"
    by (simp add: gauss_integral_def suminf_minus [OF summable_gauss])
  finally show ?thesis .
qed

subsection \<open>The Wallis integrals\<close>

lemma DERIV_cos_power_integral: "DERIV (cos_power_integral m) a :> cos a ^ m"
proof (induction m a rule: cos_power_integral.induct)
  case (1 a)
  show ?case by (simp add: cos_power_integral.simps(1) [abs_def])
next
  case (2 a)
  show ?case by (simp add: cos_power_integral.simps(2) [abs_def])
next
  case (3 m a)
  have "DERIV (\<lambda>a. cos a ^ Suc m * sin a + real (m + 1) * cos_power_integral m a) a
          :> cos a ^ Suc m * cos a - real (m + 1) * cos a ^ m * (sin a)\<^sup>2
               + real (m + 1) * cos a ^ m"
    by (rule derivative_eq_intros "3.IH" refl | simp add: algebra_simps power2_eq_square)+
  also have "cos a ^ Suc m * cos a - real (m + 1) * cos a ^ m * (sin a)\<^sup>2
               + real (m + 1) * cos a ^ m = real (m + 2) * cos a ^ Suc (Suc m)"
    unfolding sin_squared_eq by (simp add: algebra_simps power2_eq_square)
  finally have "DERIV (\<lambda>a. (cos a ^ Suc m * sin a + real (m + 1) * cos_power_integral m a)
                          / real (m + 2)) a
          :> real (m + 2) * cos a ^ Suc (Suc m) / real (m + 2)"
    by (rule DERIV_cdivide)
  then show ?case
    by (simp add: cos_power_integral.simps(3) [abs_def])
qed

lemma cos_power_integral_0: "cos_power_integral m 0 = 0"
  by (induction m "0::real" rule: cos_power_integral.induct) simp_all

lemma wallis_0: "wallis 0 = pi / 2"
  by (simp add: wallis_def)

lemma wallis_1: "wallis (Suc 0) = 1"
  by (simp add: wallis_def)

lemma wallis_Suc_Suc: "wallis (Suc (Suc m)) = real (m + 1) / real (m + 2) * wallis m"
  by (simp add: wallis_def)

lemma deriv_le_imp_le:
  fixes f g :: "real \<Rightarrow> real"
  assumes ab: "a \<le> b"
    and f: "\<And>x. a \<le> x \<Longrightarrow> x \<le> b \<Longrightarrow> DERIV f x :> f' x"
    and g: "\<And>x. a \<le> x \<Longrightarrow> x \<le> b \<Longrightarrow> DERIV g x :> g' x"
    and le: "\<And>x. a \<le> x \<Longrightarrow> x \<le> b \<Longrightarrow> f' x \<le> g' x"
  shows "f b - f a \<le> g b - g a"
proof -
  have "(\<lambda>x. g x - f x) a \<le> (\<lambda>x. g x - f x) b"
  proof (rule DERIV_nonneg_imp_nondecreasing [OF ab])
    fix x assume x: "a \<le> x" "x \<le> b"
    have "DERIV (\<lambda>x. g x - f x) x :> g' x - f' x"
      by (intro DERIV_diff f g x)
    moreover have "0 \<le> g' x - f' x" using le [OF x] by simp
    ultimately show "\<exists>y. DERIV (\<lambda>x. g x - f x) x :> y \<and> 0 \<le> y" by blast
  qed
  then show ?thesis by simp
qed

lemma cos_power_integral_mono:
  assumes "a \<le> b"
  shows "cos_power_integral (2 * m) a \<le> cos_power_integral (2 * m) b"
proof (rule DERIV_nonneg_imp_nondecreasing [where f = "cos_power_integral (2 * m)", OF assms])
  fix x :: real
  have "0 \<le> (cos x ^ m)\<^sup>2" by simp
  then have "0 \<le> cos x ^ (2 * m)" by (simp add: power_mult mult.commute)
  then show "\<exists>y. DERIV (cos_power_integral (2 * m)) x :> y \<and> 0 \<le> y"
    using DERIV_cos_power_integral by blast
qed

lemma wallis_nonneg: "0 \<le> wallis m"
proof -
  have "cos_power_integral m 0 \<le> cos_power_integral m (pi / 2)"
  proof (rule DERIV_nonneg_imp_nondecreasing [where f = "cos_power_integral m"])
    show "(0::real) \<le> pi / 2" by simp
  next
    fix x :: real assume "0 \<le> x" "x \<le> pi / 2"
    then have "0 \<le> cos x" by (intro cos_ge_zero) simp_all
    then have "0 \<le> cos x ^ m" by simp
    then show "\<exists>y. DERIV (cos_power_integral m) x :> y \<and> 0 \<le> y"
      using DERIV_cos_power_integral by blast
  qed
  then show ?thesis by (simp add: wallis_def cos_power_integral_0)
qed

lemma wallis_antimono: "wallis (Suc m) \<le> wallis m"
proof -
  have "cos_power_integral (Suc m) (pi / 2) - cos_power_integral (Suc m) 0
          \<le> cos_power_integral m (pi / 2) - cos_power_integral m 0"
  proof (rule deriv_le_imp_le [where f' = "\<lambda>x. cos x ^ Suc m" and g' = "\<lambda>x. cos x ^ m"])
    show "(0::real) \<le> pi / 2" by simp
  next
    fix x :: real
    show "DERIV (cos_power_integral (Suc m)) x :> cos x ^ Suc m"
      by (rule DERIV_cos_power_integral)
    show "DERIV (cos_power_integral m) x :> cos x ^ m"
      by (rule DERIV_cos_power_integral)
    assume "0 \<le> x" "x \<le> pi / 2"
    then have "0 \<le> cos x" by (intro cos_ge_zero) simp_all
    then show "cos x ^ Suc m \<le> cos x ^ m"
      by (intro power_decreasing) simp_all
  qed
  then show ?thesis by (simp add: wallis_def cos_power_integral_0)
qed

lemma wallis_product: "real (Suc m) * wallis m * wallis (Suc m) = pi / 2"
proof (induction m)
  case 0
  show ?case by (simp add: wallis_0 wallis_1)
next
  case (Suc m)
  have "real (Suc (Suc m)) * wallis (Suc m) * wallis (Suc (Suc m))
          = real (Suc m) * wallis m * wallis (Suc m)"
    by (simp add: wallis_Suc_Suc)
  then show ?case by (simp only: Suc.IH)
qed

lemma wallis_even_square: "(wallis (2 * Suc m))\<^sup>2 \<le> pi / (4 * real (Suc m))"
proof -
  have "(wallis (2 * Suc m))\<^sup>2 = wallis (Suc (Suc (2 * m))) * wallis (Suc (Suc (2 * m)))"
    by (simp add: power2_eq_square)
  also have "\<dots> \<le> wallis (Suc (2 * m)) * wallis (Suc (Suc (2 * m)))"
    by (intro mult_right_mono wallis_antimono wallis_nonneg)
  also have "\<dots> = pi / (4 * real (Suc m))"
    using wallis_product [of "Suc (2 * m)"] by (simp add: field_simps)
  finally show ?thesis .
qed

subsection \<open>Bounds and limits of the integral of \<open>exp(-u^2)\<close>\<close>

lemma gauss_integral_nonneg:
  assumes "0 \<le> y"
  shows "0 \<le> gauss_integral y"
proof -
  have "gauss_integral 0 \<le> gauss_integral y"
  proof (rule DERIV_nonneg_imp_nondecreasing [where f = gauss_integral, OF assms])
    fix x :: real
    have "0 \<le> exp (- (x\<^sup>2))" by simp
    then show "\<exists>d. DERIV gauss_integral x :> d \<and> 0 \<le> d"
      using DERIV_gauss_integral by blast
  qed
  then show ?thesis by (simp add: gauss_integral_0)
qed

lemma exp_minus_le_inverse_power:
  fixes u :: real
  assumes "0 \<le> u"
  shows "exp (- u) \<le> inverse ((1 + u / real (Suc m)) ^ Suc m)"
proof -
  have pos: "0 < 1 + u / real (Suc m)"
    using assms by (simp add: add_pos_nonneg)
  have "(1 + u / real (Suc m)) ^ Suc m \<le> exp (u / real (Suc m)) ^ Suc m"
    by (rule power_mono [OF exp_ge_add_one_self]) (use pos in simp)
  also have "\<dots> = exp u"
    using exp_of_nat_mult [of "Suc m" "u / real (Suc m)"] by simp
  finally have "inverse (exp u) \<le> inverse ((1 + u / real (Suc m)) ^ Suc m)"
    by (rule le_imp_inverse_le) (use pos in simp)
  then show ?thesis by (simp add: exp_minus)
qed

lemma cos_arctan_power:
  "cos (arctan z) ^ (2 * m) = inverse ((1 + z\<^sup>2) ^ m)"
proof -
  have "0 \<le> 1 + z\<^sup>2" by (simp add: add_nonneg_nonneg)
  then have "(cos (arctan z))\<^sup>2 = inverse (1 + z\<^sup>2)"
    by (simp add: cos_arctan power_divide inverse_eq_divide)
  then show ?thesis
    by (simp add: power_mult power_inverse)
qed

lemma gauss_integral_le_wallis:
  assumes y: "0 \<le> y"
  shows "gauss_integral y \<le> sqrt (real (Suc m)) * wallis (2 * m)"
proof -
  define s where "s = sqrt (real (Suc m))"
  have s: "0 < s" and s2: "s\<^sup>2 = real (Suc m)"
    by (simp_all add: s_def)
  define k where "k = (\<lambda>x. s * cos_power_integral (2 * m) (arctan (x / s)))"
  have dk: "DERIV k x :> inverse ((1 + x\<^sup>2 / real (Suc m)) ^ Suc m)" for x
  proof -
    have "DERIV (\<lambda>x. arctan (x / s)) x :> inverse (1 + (x / s)\<^sup>2) * (1 / s)"
      by (rule derivative_eq_intros refl | use s in simp)+
    then have "DERIV (\<lambda>x. cos_power_integral (2 * m) (arctan (x / s))) x
                 :> cos (arctan (x / s)) ^ (2 * m) * (inverse (1 + (x / s)\<^sup>2) * (1 / s))"
      by (rule DERIV_chain2 [OF DERIV_cos_power_integral])
    then have "DERIV k x :> s * (cos (arctan (x / s)) ^ (2 * m) * (inverse (1 + (x / s)\<^sup>2) * (1 / s)))"
      unfolding k_def by (rule DERIV_cmult)
    moreover have "s * (cos (arctan (x / s)) ^ (2 * m) * (inverse (1 + (x / s)\<^sup>2) * (1 / s)))
                     = inverse ((1 + x\<^sup>2 / real (Suc m)) ^ Suc m)"
      using s by (simp add: cos_arctan_power power_divide s2 power_inverse)
    ultimately show ?thesis by simp
  qed
  have "gauss_integral y - gauss_integral 0 \<le> k y - k 0"
  proof (rule deriv_le_imp_le [where f' = "\<lambda>x. exp (- (x\<^sup>2))"
                                 and g' = "\<lambda>x. inverse ((1 + x\<^sup>2 / real (Suc m)) ^ Suc m)", OF y])
    fix x :: real
    show "DERIV gauss_integral x :> exp (- (x\<^sup>2))" by (rule DERIV_gauss_integral)
    show "DERIV k x :> inverse ((1 + x\<^sup>2 / real (Suc m)) ^ Suc m)" by (rule dk)
    show "exp (- (x\<^sup>2)) \<le> inverse ((1 + x\<^sup>2 / real (Suc m)) ^ Suc m)"
      by (rule exp_minus_le_inverse_power) simp
  qed
  moreover have "k 0 = 0"
    by (simp add: k_def cos_power_integral_0)
  moreover have "k y \<le> s * wallis (2 * m)"
  proof -
    have "arctan (y / s) \<le> pi / 2"
      using arctan_ubound [of "y / s"] by simp
    then have "cos_power_integral (2 * m) (arctan (y / s)) \<le> wallis (2 * m)"
      unfolding wallis_def by (rule cos_power_integral_mono)
    then show ?thesis
      unfolding k_def using s by simp
  qed
  ultimately show ?thesis
    by (simp add: gauss_integral_0 s_def)
qed

lemma gauss_integral_square_le:
  assumes y: "0 \<le> y"
  shows "(gauss_integral y)\<^sup>2 \<le> pi / 4 * (1 + inverse (real (Suc m)))"
proof -
  have "(gauss_integral y)\<^sup>2 \<le> (sqrt (real (Suc (Suc m))) * wallis (2 * Suc m))\<^sup>2"
    by (rule power_mono [OF gauss_integral_le_wallis [OF y] gauss_integral_nonneg [OF y]])
  also have "\<dots> = real (Suc (Suc m)) * (wallis (2 * Suc m))\<^sup>2"
    by (simp add: power_mult_distrib)
  also have "\<dots> \<le> real (Suc (Suc m)) * (pi / (4 * real (Suc m)))"
    by (intro mult_left_mono wallis_even_square) simp
  also have "\<dots> = pi / 4 * (1 + inverse (real (Suc m)))"
    by (simp add: field_simps)
  finally show ?thesis .
qed

lemma gauss_integral_le:
  assumes y: "0 \<le> y"
  shows "gauss_integral y \<le> sqrt pi / 2"
proof -
  have "(\<lambda>m. pi / 4 * (1 + inverse (real (Suc m)))) \<longlonglongrightarrow> pi / 4 * (1 + 0)"
    by (intro tendsto_mult tendsto_add tendsto_const LIMSEQ_inverse_real_of_nat)
  then have "(gauss_integral y)\<^sup>2 \<le> pi / 4 * (1 + 0)"
    by (rule LIMSEQ_le_const) (use gauss_integral_square_le [OF y] in blast)
  then have "(gauss_integral y)\<^sup>2 \<le> pi / 4"
    by simp
  then have "sqrt ((gauss_integral y)\<^sup>2) \<le> sqrt (pi / 4)"
    by (rule real_sqrt_le_mono)
  moreover have "sqrt (pi / 4) = sqrt pi / 2"
    by (simp add: real_sqrt_divide)
  ultimately show ?thesis
    using gauss_integral_nonneg [OF y] by simp
qed

lemma gauss_integral_abs_le: "\<bar>gauss_integral y\<bar> \<le> sqrt pi / 2"
proof (cases "0 \<le> y")
  case True
  then show ?thesis
    using gauss_integral_le [of y] gauss_integral_nonneg [of y] by simp
next
  case False
  then have "0 \<le> - y" by simp
  then show ?thesis
    using gauss_integral_le [of "- y"] gauss_integral_nonneg [of "- y"]
    by (simp add: gauss_integral_minus)
qed

lemma gauss_integral_mono:
  assumes "x \<le> y"
  shows "gauss_integral x \<le> gauss_integral y"
proof (rule DERIV_nonneg_imp_nondecreasing [where f = gauss_integral, OF assms])
  fix z :: real
  have "0 \<le> exp (- (z\<^sup>2))" by simp
  then show "\<exists>d. DERIV gauss_integral z :> d \<and> 0 \<le> d"
    using DERIV_gauss_integral by blast
qed

lemma wallis_odd_square: "pi / (4 * real (Suc n)) \<le> (wallis (Suc (2 * n)))\<^sup>2"
proof -
  have "pi / (4 * real (Suc n)) = wallis (Suc (2 * n)) * wallis (Suc (Suc (2 * n)))"
    using wallis_product [of "Suc (2 * n)"] by (simp add: field_simps)
  also have "\<dots> \<le> wallis (Suc (2 * n)) * wallis (Suc (2 * n))"
    by (intro mult_left_mono wallis_antimono wallis_nonneg)
  finally show ?thesis by (simp add: power2_eq_square)
qed

lemma cos_power_le_exp:
  "cos a ^ (2 * n) \<le> exp (- ((sqrt (real n) * sin a)\<^sup>2))"
proof -
  have "cos a ^ (2 * n) = (1 - (sin a)\<^sup>2) ^ n"
    by (simp add: power_mult cos_squared_eq)
  also have "\<dots> \<le> exp (- ((sin a)\<^sup>2)) ^ n"
  proof (rule power_mono)
    show "1 - (sin a)\<^sup>2 \<le> exp (- ((sin a)\<^sup>2))"
      using exp_ge_add_one_self [of "- ((sin a)\<^sup>2)"] by simp
    have "(sin a)\<^sup>2 \<le> 1" by (simp add: abs_square_le_1)
    then show "0 \<le> 1 - (sin a)\<^sup>2" by simp
  qed
  also have "\<dots> = exp (real n * (- ((sin a)\<^sup>2)))"
    by (rule exp_of_nat_mult [symmetric])
  also have "real n * (- ((sin a)\<^sup>2)) = - ((sqrt (real n) * sin a)\<^sup>2)"
    by (simp add: power_mult_distrib)
  finally show ?thesis .
qed

lemma gauss_integral_ge_wallis:
  "sqrt (real n) * wallis (Suc (2 * n)) \<le> gauss_integral (sqrt (real n))"
proof -
  define s where "s = sqrt (real n)"
  have s: "0 \<le> s" by (simp add: s_def)
  have "s * cos_power_integral (Suc (2 * n)) (pi / 2) - s * cos_power_integral (Suc (2 * n)) 0
          \<le> gauss_integral (s * sin (pi / 2)) - gauss_integral (s * sin 0)"
  proof (rule deriv_le_imp_le [where f' = "\<lambda>a. s * cos a ^ Suc (2 * n)"
                                 and g' = "\<lambda>a. exp (- ((s * sin a)\<^sup>2)) * (s * cos a)"])
    show "(0::real) \<le> pi / 2" by simp
  next
    fix a :: real
    show "DERIV (\<lambda>a. s * cos_power_integral (Suc (2 * n)) a) a :> s * cos a ^ Suc (2 * n)"
      by (rule DERIV_cmult [OF DERIV_cos_power_integral])
    have "DERIV (\<lambda>a. s * sin a) a :> s * cos a"
      by (rule DERIV_cmult [OF DERIV_sin])
    then show "DERIV (\<lambda>a. gauss_integral (s * sin a)) a :> exp (- ((s * sin a)\<^sup>2)) * (s * cos a)"
      by (rule DERIV_chain2 [OF DERIV_gauss_integral])
    assume "0 \<le> a" "a \<le> pi / 2"
    then have c: "0 \<le> cos a" by (intro cos_ge_zero) simp_all
    have "s * cos a ^ Suc (2 * n) = cos a ^ (2 * n) * (s * cos a)"
      by simp
    also have "\<dots> \<le> exp (- ((s * sin a)\<^sup>2)) * (s * cos a)"
      unfolding s_def
      by (intro mult_right_mono cos_power_le_exp mult_nonneg_nonneg c) simp
    finally show "s * cos a ^ Suc (2 * n) \<le> exp (- ((s * sin a)\<^sup>2)) * (s * cos a)" .
  qed
  then show ?thesis
    by (simp add: wallis_def cos_power_integral_0 gauss_integral_0 s_def)
qed

lemma gauss_integral_nat_lower:
  "sqrt (pi / 4 * (1 - inverse (real (Suc n)))) \<le> gauss_integral (real n)"
proof -
  have "pi / 4 * (1 - inverse (real (Suc n))) = real n * (pi / (4 * real (Suc n)))"
    by (simp add: field_simps)
  also have "\<dots> \<le> real n * (wallis (Suc (2 * n)))\<^sup>2"
    by (intro mult_left_mono wallis_odd_square) simp
  also have "\<dots> = (sqrt (real n) * wallis (Suc (2 * n)))\<^sup>2"
    by (simp add: power_mult_distrib)
  finally have "sqrt (pi / 4 * (1 - inverse (real (Suc n))))
                  \<le> sqrt ((sqrt (real n) * wallis (Suc (2 * n)))\<^sup>2)"
    by (rule real_sqrt_le_mono)
  also have "\<dots> = sqrt (real n) * wallis (Suc (2 * n))"
    by (simp add: wallis_nonneg)
  also have "\<dots> \<le> gauss_integral (sqrt (real n))"
    by (rule gauss_integral_ge_wallis)
  also have "\<dots> \<le> gauss_integral (real n)"
  proof (rule gauss_integral_mono, rule real_le_lsqrt)
    have "n \<le> n * n" by (cases n) simp_all
    then have "real n \<le> real (n * n)" by (simp only: of_nat_le_iff)
    then show "real n \<le> (real n)\<^sup>2" by (simp add: power2_eq_square)
  qed simp
  finally show ?thesis .
qed

lemma gauss_integral_at_top: "(gauss_integral \<longlongrightarrow> sqrt pi / 2) at_top"
proof (rule tendsto_at_topI_sequentially_real)
  show "mono gauss_integral"
    by (rule monoI) (rule gauss_integral_mono)
  have "(\<lambda>n. sqrt (pi / 4 * (1 - inverse (real (Suc n))))) \<longlonglongrightarrow> sqrt (pi / 4 * (1 - 0))"
    by (intro tendsto_real_sqrt tendsto_mult tendsto_diff tendsto_const LIMSEQ_inverse_real_of_nat)
  moreover have "sqrt (pi / 4 * (1 - 0)) = sqrt pi / 2"
    by (simp add: real_sqrt_divide)
  ultimately have lower: "(\<lambda>n. sqrt (pi / 4 * (1 - inverse (real (Suc n))))) \<longlonglongrightarrow> sqrt pi / 2"
    by (simp only:)
  show "(\<lambda>n. gauss_integral (real n)) \<longlonglongrightarrow> sqrt pi / 2"
  proof (rule tendsto_sandwich [OF _ _ lower tendsto_const])
    show "\<forall>\<^sub>F n in sequentially. sqrt (pi / 4 * (1 - inverse (real (Suc n)))) \<le> gauss_integral (real n)"
      by (rule always_eventually, rule allI, rule gauss_integral_nat_lower)
    show "\<forall>\<^sub>F n in sequentially. gauss_integral (real n) \<le> sqrt pi / 2"
      by (rule always_eventually, rule allI, rule gauss_integral_le) simp
  qed
qed

lemma gauss_integral_at_bot: "(gauss_integral \<longlongrightarrow> - (sqrt pi / 2)) at_bot"
proof -
  have "((\<lambda>x. - gauss_integral x) \<longlongrightarrow> - (sqrt pi / 2)) at_top"
    by (rule tendsto_minus [OF gauss_integral_at_top])
  then have "((\<lambda>x. gauss_integral (- x)) \<longlongrightarrow> - (sqrt pi / 2)) at_top"
    by (simp add: gauss_integral_minus)
  then show ?thesis
    by (simp add: filterlim_at_bot_mirror)
qed

subsection \<open>The standard normal distribution function\<close>

lemma DERIV_std_normal_cdf: "DERIV std_normal_cdf x :> std_normal_density x"
proof -
  have "DERIV (\<lambda>x. x / sqrt 2) x :> 1 / sqrt 2"
    by (rule DERIV_cdivide [OF DERIV_ident])
  then have "DERIV (\<lambda>x. gauss_integral (x / sqrt 2)) x :> exp (- ((x / sqrt 2)\<^sup>2)) * (1 / sqrt 2)"
    by (rule DERIV_chain2 [OF DERIV_gauss_integral])
  then have "DERIV (\<lambda>x. gauss_integral (x / sqrt 2) / sqrt pi) x
               :> exp (- ((x / sqrt 2)\<^sup>2)) * (1 / sqrt 2) / sqrt pi"
    by (rule DERIV_cdivide)
  then have "DERIV (\<lambda>x. 1 / 2 + gauss_integral (x / sqrt 2) / sqrt pi) x
               :> exp (- ((x / sqrt 2)\<^sup>2)) * (1 / sqrt 2) / sqrt pi"
    using DERIV_add [OF DERIV_const [of "1 / 2"]] by fastforce
  moreover have "exp (- ((x / sqrt 2)\<^sup>2)) * (1 / sqrt 2) / sqrt pi = std_normal_density x"
    by (simp add: std_normal_density_def power_divide real_sqrt_mult)
  ultimately show ?thesis
    by (simp add: std_normal_cdf_def [abs_def])
qed

lemma std_normal_cdf_0: "std_normal_cdf 0 = 1 / 2"
  by (simp add: std_normal_cdf_def gauss_integral_0)

lemma std_normal_cdf_at_top: "(std_normal_cdf \<longlongrightarrow> 1) at_top"
proof -
  have "filterlim (\<lambda>x::real. inverse (sqrt 2) * x) at_top at_top"
    by (rule filterlim_tendsto_pos_mult_at_top [OF tendsto_const _ filterlim_ident]) simp
  then have "filterlim (\<lambda>x::real. x / sqrt 2) at_top at_top"
    by (simp add: divide_inverse mult.commute)
  then have "((\<lambda>x. gauss_integral (x / sqrt 2)) \<longlongrightarrow> sqrt pi / 2) at_top"
    by (rule filterlim_compose [OF gauss_integral_at_top])
  then have "((\<lambda>x. 1 / 2 + gauss_integral (x / sqrt 2) / sqrt pi) \<longlongrightarrow> 1 / 2 + sqrt pi / 2 / sqrt pi) at_top"
    by (intro tendsto_add tendsto_divide tendsto_const) simp_all
  then show ?thesis
    by (simp add: std_normal_cdf_def [abs_def])
qed

lemma std_normal_cdf_at_bot: "(std_normal_cdf \<longlongrightarrow> 0) at_bot"
proof -
  have "filterlim (\<lambda>x::real. inverse (sqrt 2) * x) at_bot at_bot"
    by (rule filterlim_tendsto_pos_mult_at_bot [OF tendsto_const _ filterlim_ident]) simp
  then have "filterlim (\<lambda>x::real. x / sqrt 2) at_bot at_bot"
    by (simp add: divide_inverse mult.commute)
  then have "((\<lambda>x. gauss_integral (x / sqrt 2)) \<longlongrightarrow> - (sqrt pi / 2)) at_bot"
    by (rule filterlim_compose [OF gauss_integral_at_bot])
  then have "((\<lambda>x. 1 / 2 + gauss_integral (x / sqrt 2) / sqrt pi) \<longlongrightarrow> 1 / 2 + - (sqrt pi / 2) / sqrt pi) at_bot"
    by (intro tendsto_add tendsto_divide tendsto_const) simp_all
  then show ?thesis
    by (simp add: std_normal_cdf_def [abs_def])
qed

lemma std_normal_cdf_range: "0 \<le> std_normal_cdf x \<and> std_normal_cdf x \<le> 1"
proof -
  have "\<bar>gauss_integral (x / sqrt 2)\<bar> \<le> sqrt pi / 2"
    by (rule gauss_integral_abs_le)
  then have "\<bar>gauss_integral (x / sqrt 2)\<bar> / sqrt pi \<le> sqrt pi / 2 / sqrt pi"
    by (rule divide_right_mono) simp
  then have "\<bar>gauss_integral (x / sqrt 2) / sqrt pi\<bar> \<le> 1 / 2"
    by simp
  then show ?thesis
    unfolding std_normal_cdf_def by linarith
qed

subsection \<open>The functions compute the formulas\<close>

text \<open>
  C1: for all real \<open>gamma\<close>, \<open>t\<close>, \<open>r_bar\<close>, \<open>r_0\<close>, \<^verbatim>\<open>vasicek_expectation\<close> returns
  \<open>r_0 * exp(-gamma*t) + r_bar * (1 - exp(-gamma*t))\<close>.
\<close>

theorem vasicek_expectation_formula:
  "vasicek_expectation gamma t r_bar r_0 = expected_rate_spec gamma t r_bar r_0"
  by (simp add: vasicek_expectation_def expected_rate_spec_def np_exp_def)

text \<open>
  C2: for all real \<open>sigma\<close> and \<open>t\<close> and every \<open>gamma > 0\<close>, \<^verbatim>\<open>vasicek_variance\<close> returns
  \<open>sigma^2 / (2*gamma) * (1 - exp(-2*gamma*t))\<close>.
\<close>

theorem vasicek_variance_formula:
  "0 < gamma \<Longrightarrow>
     vasicek_variance sigma gamma t = Inr (rate_variance_spec sigma gamma t)"
  by (simp add: vasicek_variance_nonzero rate_variance_spec_def)

theorem vasicek_variance_formula_witness:
  "(0::real) < 1 \<and> vasicek_variance 2 1 0 = Inr (rate_variance_spec 2 1 0)
     \<and> vasicek_variance 2 1 0 = Inr 0"
  using vasicek_variance_formula [of 1 2 0] by (simp add: rate_variance_spec_def)

subsection \<open>Division by zero\<close>

text \<open>
  C3: the division by \<open>2*gamma\<close> is unguarded: with \<open>gamma = 0\<close> the call ends in the
  division-by-zero error, and with \<open>gamma > 0\<close> it never does, whatever \<open>sigma\<close> and \<open>t\<close>.
\<close>

theorem vasicek_variance_division_by_zero:
  "vasicek_variance sigma 0 t = Inl ZeroDivisionError \<and>
   (0 < gamma \<longrightarrow> vasicek_variance sigma gamma t \<noteq> Inl ZeroDivisionError
                 \<and> (\<exists>v. vasicek_variance sigma gamma t = Inr v))"
  by (simp add: vasicek_variance_def py_truediv_def)

theorem vasicek_variance_division_by_zero_witness:
  "vasicek_variance 1 0 5 = Inl ZeroDivisionError \<and> (0::real) < 1 \<and>
   vasicek_variance 1 1 0 \<noteq> Inl ZeroDivisionError \<and> vasicek_variance 1 1 0 = Inr 0"
  using vasicek_variance_division_by_zero [of 1 5 1]
  by (simp add: vasicek_variance_def py_truediv_def np_exp_def)

subsection \<open>Values at the ends of the domain\<close>

text \<open>
  C4: for every \<open>gamma > 0\<close> and all real \<open>r_bar\<close>, \<open>r_0\<close>, the expected rate at \<open>t = 0\<close>
  is \<open>r_0\<close>.
\<close>

theorem vasicek_expectation_at_zero:
  "0 < gamma \<Longrightarrow> vasicek_expectation gamma 0 r_bar r_0 = r_0"
  by (simp add: vasicek_expectation_def np_exp_def)

theorem vasicek_expectation_at_zero_witness:
  "(0::real) < 1 / 4 \<and> vasicek_expectation (1 / 4) 0 (4 / 100) (2 / 100) = 2 / 100"
  using vasicek_expectation_at_zero [of "1 / 4" "4 / 100" "2 / 100"] by simp

text \<open>
  C7: the expected rate is defined at \<open>gamma = 0\<close>, where it is \<open>r_0\<close> for all real
  \<open>t\<close>, \<open>r_bar\<close>, \<open>r_0\<close>.
\<close>

theorem vasicek_expectation_gamma_zero:
  "vasicek_expectation 0 t r_bar r_0 = r_0"
  by (simp add: vasicek_expectation_def np_exp_def)

subsection \<open>The long-run limit of the expected rate\<close>

text \<open>
  C8, as stated, fails: the bound \<open>1e-6\<close> at \<open>gamma = 0.25\<close> and \<open>t = 1000\<close> does not hold
  for all real \<open>r_bar\<close> and \<open>r_0\<close>.  With \<open>r_0 = 10^103\<close> and \<open>r_bar = 0\<close> the result is
  \<open>10^103 * exp(-250)\<close>, which is not below \<open>1e-6\<close>.
\<close>

theorem vasicek_expectation_far_counterexample:
  "\<not> \<bar>vasicek_expectation (1 / 4) 1000 0 (10 ^ 103) - 0\<bar> < 1 / 10 ^ 6"
proof -
  have "(1::real) / 10 ^ 6 = 10 ^ 103 / 10 ^ 109" by simp
  also have "\<dots> \<le> 10 ^ 103 / exp (250::real)"
    by (rule divide_left_mono [OF exp_250_upper]) simp_all
  also have "\<dots> = \<bar>10 ^ 103 - 0\<bar> / exp (250::real)"
    by (simp only: diff_zero power_abs abs_numeral)
  also have "\<dots> = \<bar>vasicek_expectation (1 / 4) 1000 0 (10 ^ 103) - 0\<bar>"
    by (rule vasicek_expectation_error_1000 [symmetric])
  finally have "1 / 10 ^ 6 \<le> \<bar>vasicek_expectation (1 / 4) 1000 0 (10 ^ 103) - 0\<bar>" .
  then show ?thesis by (simp only: not_less)
qed

text \<open>
  C8, amended: for every \<open>gamma > 0\<close> and all real \<open>r_bar\<close>, \<open>r_0\<close> the expected rate tends to
  \<open>r_bar\<close> as \<open>t\<close> grows without bound; in particular, at \<open>gamma = 0.25\<close> and \<open>t = 1000\<close> it
  is within \<open>1e-6\<close> of \<open>r_bar\<close> whenever \<open>|r_0 - r_bar| \<le> 10^102\<close>.
\<close>

theorem vasicek_expectation_limit:
  "(0 < gamma \<longrightarrow> ((\<lambda>t. vasicek_expectation gamma t r_bar r_0) \<longlongrightarrow> r_bar) at_top) \<and>
   (\<bar>r_0 - r_bar\<bar> \<le> 10 ^ 102 \<longrightarrow>
      \<bar>vasicek_expectation (1 / 4) 1000 r_bar r_0 - r_bar\<bar> < 1 / 10 ^ 6)"
proof (intro conjI impI)
  assume g: "0 < gamma"
  have "((\<lambda>t. r_bar + (r_0 - r_bar) * exp (- (gamma * t))) \<longlongrightarrow> r_bar + (r_0 - r_bar) * 0) at_top"
    by (intro tendsto_add tendsto_mult tendsto_const exp_neg_tendsto_0 [OF g])
  then show "((\<lambda>t. vasicek_expectation gamma t r_bar r_0) \<longlongrightarrow> r_bar) at_top"
    by (simp add: vasicek_expectation_weight)
next
  assume d: "\<bar>r_0 - r_bar\<bar> \<le> 10 ^ 102"
  have "\<bar>vasicek_expectation (1 / 4) 1000 r_bar r_0 - r_bar\<bar> = \<bar>r_0 - r_bar\<bar> / exp 250"
    by (rule vasicek_expectation_error_1000)
  also have "\<dots> \<le> 10 ^ 102 / exp 250"
    using d by (rule divide_right_mono) simp
  also have "\<dots> < 10 ^ 102 / 10 ^ 108"
    by (rule divide_strict_left_mono [OF exp_250_lower]) simp_all
  also have "\<dots> = (1::real) / 10 ^ 6" by simp
  finally show "\<bar>vasicek_expectation (1 / 4) 1000 r_bar r_0 - r_bar\<bar> < 1 / 10 ^ 6" .
qed

theorem vasicek_expectation_limit_witness:
  "(0::real) < 1 / 4 \<and>
   ((\<lambda>t. vasicek_expectation (1 / 4) t (4 / 100) (2 / 100)) \<longlongrightarrow> 4 / 100) at_top \<and>
   \<bar>2 / 100 - 4 / 100 :: real\<bar> \<le> 10 ^ 102 \<and>
   \<bar>vasicek_expectation (1 / 4) 1000 (4 / 100) (2 / 100) - 4 / 100\<bar> < 1 / 10 ^ 6"
  using vasicek_expectation_limit [of "1 / 4" "4 / 100" "2 / 100"] by simp

subsection \<open>The probability of a negative rate\<close>

lemma negative_rate_probability_pos:
  "0 < v \<Longrightarrow> negative_rate_probability m v = Inr (std_normal_cdf (- m / sqrt v))"
  by (simp add: negative_rate_probability_def py_pow_half_def py_truediv_def norm_cdf_def
        powr_half_sqrt)

text \<open>
  C6: for every real \<open>mean\<close> and every \<open>variance > 0\<close> the negative-rate probability is
  \<open>\<Phi>(-mean / sqrt(variance))\<close>, with \<open>\<Phi>\<close> the standard normal distribution function, and
  lies in the closed interval from \<open>0\<close> to \<open>1\<close>.
\<close>

theorem negative_rate_probability_correct:
  assumes "0 < variance"
  shows "\<exists>p. negative_rate_probability mean variance = Inr p
           \<and> p = negative_rate_probability_spec mean variance \<and> 0 \<le> p \<and> p \<le> 1"
  using assms
  by (simp add: negative_rate_probability_pos negative_rate_probability_spec_def
        std_normal_cdf_range)

theorem negative_rate_probability_correct_witness:
  "(0::real) < 1 \<and>
   (\<exists>p. negative_rate_probability 0 1 = Inr p
          \<and> p = negative_rate_probability_spec 0 1 \<and> 0 \<le> p \<and> p \<le> 1) \<and>
   negative_rate_probability 0 1 = Inr (1 / 2)"
  using negative_rate_probability_correct [of 1 0]
  by (simp add: negative_rate_probability_pos std_normal_cdf_0)

end
